theory Spec2Isabelle
  imports Complex_Main "HOL-Library.AList" "HOL-Library.Log_Nat"
begin

section \<open>Data model of \<open>liza_codex_pdf/web.py\<close>\<close>

text \<open>
  Python strings are sequences of Unicode code points; a code point is a natural number
  (\<open>ord\<close> of the character). Python floats are IEEE doubles; a finite double is an exact
  rational number, so floats are values of type \<open>rat\<close>, and double literals of the source
  are written as the exact rational the literal denotes (NaN and the infinities are not
  modelled: the OCR tools print finite numbers).
\<close>

type_synonym codepoint = nat
type_synonym ustr = "codepoint list"
type_synonym pyfloat = rat

text \<open>\<open>WordBox = tuple[int, int, int, int, str, float]\<close>:
  left, top, width, height, text, confidence.\<close>

type_synonym WordBox = "int \<times> int \<times> int \<times> int \<times> ustr \<times> pyfloat"

datatype error =
    KeyError string
  | ValueError string
  | RuntimeError string
  | ExternalToolError string

text \<open>
  The dictionaries \<open>analysis\<close>, \<open>coverage\<close> and \<open>settings\<close> are records whose fields are
  optional: \<open>None\<close> is an absent key. \<open>d[k]\<close> on an absent key raises \<open>KeyError\<close>,
  \<open>d.get(k, default)\<close> returns the default. The field \<open>word_boxes\<close> is the key
  \<open>"boxes"\<close> of the coverage dictionary.
\<close>

record Analysis =
  score :: "int option"
  alnum_chars :: "int option"
  token_count :: "int option"
  eng_token_count :: "int option"
  numeric_token_count :: "int option"

record Coverage =
  full_words :: "int option"
  tile_words :: "int option"
  combined_words :: "int option"
  gain_ratio :: "pyfloat option"
  vertical_words :: "int option"
  table_words :: "int option"
  word_boxes :: "WordBox list option"

record Settings =
  drawing_mode :: "bool option"
  deep_verify :: "bool option"

definition subscript :: "string \<Rightarrow> 'a option \<Rightarrow> error + 'a" where
  "subscript k v = (case v of None \<Rightarrow> Inl (KeyError k) | Some x \<Rightarrow> Inr x)"

definition get_or :: "'a option \<Rightarrow> 'a \<Rightarrow> 'a" where
  "get_or v d = (case v of None \<Rightarrow> d | Some x \<Rightarrow> x)"

text \<open>Sequencing of computations that may raise: the first error ends the computation.\<close>

definition bind_err :: "error + 'a \<Rightarrow> ('a \<Rightarrow> error + 'b) \<Rightarrow> error + 'b" where
  "bind_err m f = (case m of Inl e \<Rightarrow> Inl e | Inr x \<Rightarrow> f x)"

section \<open>Rescue escalation\<close>

text \<open>The double literals \<open>0.35\<close> and \<open>1.2\<close>, as the rationals they denote.\<close>

definition double_0_35 :: pyfloat where
  "double_0_35 = 3152519739159347 / 9007199254740992"

definition double_1_2 :: pyfloat where
  "double_1_2 = 5404319552844595 / 4503599627370496"

definition should_run_rescue_pass :: "Analysis \<Rightarrow> Coverage \<Rightarrow> Settings \<Rightarrow> error + bool" where
  "should_run_rescue_pass analysis coverage settings =
    (case deep_verify settings of
       None \<Rightarrow> Inl (KeyError ''deep_verify'')
     | Some dv \<Rightarrow>
         if \<not> dv then Inr False
         else
           (case drawing_mode settings of
              None \<Rightarrow> Inl (KeyError ''drawing_mode'')
            | Some dm \<Rightarrow>
                if dm then
                  (let fullw = get_or (full_words coverage) 0;
                       tilew = get_or (tile_words coverage) 0;
                       combinedw = get_or (combined_words coverage) tilew;
                       gain = get_or (gain_ratio coverage) 0;
                       tile_bonus = tilew - fullw
                   in case score analysis of
                        None \<Rightarrow> Inl (KeyError ''score'')
                      | Some s \<Rightarrow>
                          if s < 420 then Inr True
                          else
                            (case eng_token_count analysis of
                               None \<Rightarrow> Inl (KeyError ''eng_token_count'')
                             | Some e \<Rightarrow>
                                 if e < 8 \<and> tilew \<ge> 25 then Inr True
                                 else if combinedw < 55 then Inr True
                                 else if tile_bonus \<ge> 30 \<and> gain \<ge> double_0_35 \<and> s < 700
                                   then Inr True
                                 else Inr False))
                else
                  (case score analysis of
                     None \<Rightarrow> Inl (KeyError ''score'')
                   | Some s \<Rightarrow> Inr (s < 120))))"

definition needs_manual_review :: "Analysis \<Rightarrow> Coverage \<Rightarrow> Settings \<Rightarrow> error + bool" where
  "needs_manual_review analysis coverage settings =
    (case drawing_mode settings of
       None \<Rightarrow> Inl (KeyError ''drawing_mode'')
     | Some dm \<Rightarrow>
         if dm then
           (let tilew = get_or (tile_words coverage) 0;
                combinedw = get_or (combined_words coverage) tilew;
                gain = get_or (gain_ratio coverage) 0
            in case score analysis of
                 None \<Rightarrow> Inl (KeyError ''score'')
               | Some s \<Rightarrow>
                   if s < 260 then Inr True
                   else
                     (case eng_token_count analysis of
                        None \<Rightarrow> Inl (KeyError ''eng_token_count'')
                      | Some e \<Rightarrow>
                          if e < 6 \<and> tilew < 20 then Inr True
                          else if combinedw < 40 then Inr True
                          else if gain > double_1_2 \<and> combinedw < 120 then Inr True
                          else Inr False))
         else
           (case score analysis of
              None \<Rightarrow> Inl (KeyError ''score'')
            | Some s \<Rightarrow> Inr (s < 120)))"

section \<open>Box geometry: mapping a rotated box to the original frame\<close>

text \<open>ASCII text as a Python string, for writing concrete inputs.\<close>

definition ascii :: "string \<Rightarrow> ustr" where
  "ascii s = map of_char s"

text \<open>
  \<open>_map_rotated_box_to_original\<close>: the branches \<open>angle == 90\<close> and \<open>angle == 270\<close> set
  \<open>mapped_left\<close> and \<open>mapped_top\<close>, every other angle returns \<open>None\<close>; the clamping that
  follows is shared by both branches. (\<open>topp\<close> is the source's \<open>top\<close>.)
\<close>

definition map_rotated_box_to_original ::
  "int \<Rightarrow> int \<Rightarrow> int \<Rightarrow> int \<Rightarrow> ustr \<Rightarrow> pyfloat \<Rightarrow> int \<Rightarrow> int \<Rightarrow> int \<Rightarrow> WordBox option" where
  "map_rotated_box_to_original left topp width height txt conf original_width original_height angle =
    (if angle = 90 \<or> angle = 270 then
       (let mapped_left = (if angle = 90 then original_width - (topp + height) else topp);
            mapped_top = (if angle = 90 then left else original_height - (left + width));
            mapped_width = height;
            mapped_height = width;
            mapped_left = max 0 (min (original_width - 1) mapped_left);
            mapped_top = max 0 (min (original_height - 1) mapped_top);
            mapped_width = max 1 (min mapped_width (original_width - mapped_left));
            mapped_height = max 1 (min mapped_height (original_height - mapped_top))
        in Some (mapped_left, mapped_top, mapped_width, mapped_height, txt, conf))
     else None)"

text \<open>
  Two mappings in a row, each with its own angle and image dimensions: the composition
  that the round-trip property speaks about.
\<close>

definition map_rotated_twice ::
  "int \<Rightarrow> int \<Rightarrow> int \<Rightarrow> int \<Rightarrow> int \<Rightarrow> int \<Rightarrow> WordBox \<Rightarrow> WordBox option" where
  "map_rotated_twice angle1 width1 height1 angle2 width2 height2 box =
    (case box of (left, topp, width, height, txt, conf) \<Rightarrow>
       (case map_rotated_box_to_original left topp width height txt conf width1 height1 angle1 of
          None \<Rightarrow> None
        | Some (left', topp', width', height', txt', conf') \<Rightarrow>
            map_rotated_box_to_original left' topp' width' height' txt' conf' width2 height2 angle2))"

text \<open>A box lies within an image: non-negative origin, positive size, inside the bounds.\<close>

definition box_within :: "WordBox \<Rightarrow> int \<Rightarrow> int \<Rightarrow> bool" where
  "box_within box image_width image_height =
    (case box of (left, topp, width, height, txt, conf) \<Rightarrow>
       0 \<le> left \<and> 0 \<le> topp \<and> 1 \<le> width \<and> 1 \<le> height
       \<and> left + width \<le> image_width \<and> topp + height \<le> image_height)"

text \<open>The largest difference between corresponding coordinates of two boxes, in pixels.\<close>

definition box_distance :: "WordBox \<Rightarrow> WordBox \<Rightarrow> int" where
  "box_distance a b =
    (case a of (l1, t1, w1, h1, x1, c1) \<Rightarrow> case b of (l2, t2, w2, h2, x2, c2) \<Rightarrow>
       max (max \<bar>l1 - l2\<bar> \<bar>t1 - t2\<bar>) (max \<bar>w1 - w2\<bar> \<bar>h1 - h2\<bar>))"

section \<open>Double-precision arithmetic\<close>

text \<open>
  A Python float operation returns the exact result rounded to the nearest double, ties
  to the double with an even significand. \<open>binade x\<close> is the exponent \<open>e\<close> with
  \<open>2^e \<le> |x| < 2^(e+1)\<close>; doubles in that range are the multiples of \<open>2^(e-52)\<close>, and
  below \<open>2^(-1022)\<close> the multiples of \<open>2^(-1074)\<close>. Results of magnitude \<open>2^1024\<close> and
  more (Python's \<open>inf\<close>) are not modelled.
\<close>

definition pow2 :: "int \<Rightarrow> rat" where
  "pow2 k = (if 0 \<le> k then 2 ^ nat k else 1 / 2 ^ nat (- k))"

definition round_half_even :: "rat \<Rightarrow> int" where
  "round_half_even q =
    (let f = \<lfloor>q\<rfloor>; r = q - of_int f
     in if r < 1 / 2 then f else if 1 / 2 < r then f + 1 else if even f then f else f + 1)"

definition binade :: "rat \<Rightarrow> int" where
  "binade x =
    (case quotient_of \<bar>x\<bar> of (p, q) \<Rightarrow>
       (let k = bitlen p - bitlen q in if pow2 k \<le> \<bar>x\<bar> then k else k - 1))"

definition round_double :: "rat \<Rightarrow> pyfloat" where
  "round_double x =
    (if x = 0 then 0
     else (let e = max (binade x) (- 1022); u = pow2 (e - 52)
           in of_int (round_half_even (x / u)) * u))"

text \<open>The operators \<open>*\<close>, \<open>+\<close>, \<open>-\<close> and \<open>/\<close> on floats, and the conversions
  \<open>float(i)\<close> of an integer and \<open>int(x)\<close> of a float (truncation toward zero).\<close>

definition fmul :: "pyfloat \<Rightarrow> pyfloat \<Rightarrow> pyfloat" where
  "fmul x y = round_double (x * y)"

definition fadd :: "pyfloat \<Rightarrow> pyfloat \<Rightarrow> pyfloat" where
  "fadd x y = round_double (x + y)"

definition fsub :: "pyfloat \<Rightarrow> pyfloat \<Rightarrow> pyfloat" where
  "fsub x y = round_double (x - y)"

definition fdiv :: "pyfloat \<Rightarrow> pyfloat \<Rightarrow> pyfloat" where
  "fdiv x y = round_double (x / y)"

definition float_of_int :: "int \<Rightarrow> pyfloat" where
  "float_of_int i = round_double (of_int i)"

definition int_of_float :: "pyfloat \<Rightarrow> int" where
  "int_of_float x = (if 0 \<le> x then \<lfloor>x\<rfloor> else \<lceil>x\<rceil>)"

section \<open>Character classes of the regular expressions\<close>

text \<open>
  The bracket expressions of the source, as predicates on code points:
  \<open>A-Z\<close> is 65..90, \<open>a-z\<close> is 97..122, \<open>0-9\<close> is 48..57, and the Cyrillic ranges
  \<open>U+0410-U+042F\<close> and \<open>U+0430-U+044F\<close> are 1040..1071 and 1072..1103. \<open>word_char\<close> is
  the class \<open>[A-Za-z\<dots>0-9]\<close> with both Cyrillic ranges that \<open>_dedupe_word_boxes\<close> and the
  token pattern use.
\<close>

definition between :: "nat \<Rightarrow> nat \<Rightarrow> codepoint \<Rightarrow> bool" where
  "between lo hi c = (lo \<le> c \<and> c \<le> hi)"

definition latin_upper :: "codepoint \<Rightarrow> bool" where
  "latin_upper c = between 65 90 c"

definition latin_lower :: "codepoint \<Rightarrow> bool" where
  "latin_lower c = between 97 122 c"

definition ascii_digit :: "codepoint \<Rightarrow> bool" where
  "ascii_digit c = between 48 57 c"

definition cyrillic_upper :: "codepoint \<Rightarrow> bool" where
  "cyrillic_upper c = between 1040 1071 c"

definition cyrillic_lower :: "codepoint \<Rightarrow> bool" where
  "cyrillic_lower c = between 1072 1103 c"

definition word_char :: "codepoint \<Rightarrow> bool" where
  "word_char c = (latin_upper c \<or> latin_lower c \<or> cyrillic_upper c \<or> cyrillic_lower c
                  \<or> ascii_digit c)"

text \<open>
  \<open>str.upper()\<close> on the characters of \<open>word_char\<close>: a lower-case Latin or Cyrillic letter
  of these ranges has its upper-case letter 32 code points below; upper-case letters and
  digits stay. The source applies \<open>upper()\<close> here only after every other character has
  been removed.
\<close>

definition upper_char :: "codepoint \<Rightarrow> codepoint" where
  "upper_char c = (if latin_lower c \<or> cyrillic_lower c then c - 32 else c)"

section \<open>Word-box deduplication\<close>

text \<open>\<open>re.sub(r"[^A-Za-z\<dots>0-9]", "", text).upper()\<close> of \<open>_dedupe_word_boxes\<close>.\<close>

definition normalize_box_text :: "ustr \<Rightarrow> ustr" where
  "normalize_box_text txt = map upper_char (filter word_char txt)"

text \<open>
  \<open>_dedupe_word_boxes\<close>. The dictionary \<open>dedup\<close> keeps insertion order, and
  \<open>list(dedup.values())\<close> lists the boxes in that order: it is an association list, and
  \<open>dedup[key] = box\<close> is \<open>AList.update\<close>, which replaces the value of a key in place and
  appends a new key at the end. \<open>left // 6\<close> is floor division, as \<open>div\<close> on \<open>int\<close> is.
\<close>

type_synonym dedupe_key = "ustr \<times> int \<times> int"

fun dedupe_loop :: "(dedupe_key \<times> WordBox) list \<Rightarrow> WordBox list \<Rightarrow> (dedupe_key \<times> WordBox) list" where
  "dedupe_loop dedup [] = dedup"
| "dedupe_loop dedup ((left, topp, width, height, txt, conf) # rest) =
    (let normalized = normalize_box_text txt in
     if normalized = [] then dedupe_loop dedup rest
     else
       (let key = (normalized, left div 6, topp div 6) in
        case map_of dedup key of
          None \<Rightarrow> dedupe_loop (AList.update key (left, topp, width, height, txt, conf) dedup) rest
        | Some (eleft, etop, ewidth, eheight, etxt, econf) \<Rightarrow>
            if conf > econf
            then dedupe_loop (AList.update key (left, topp, width, height, txt, conf) dedup) rest
            else dedupe_loop dedup rest))"

definition dedupe_word_boxes :: "WordBox list \<Rightarrow> WordBox list" where
  "dedupe_word_boxes boxes = map snd (dedupe_loop [] boxes)"

text \<open>The key under which a box is stored, if it is stored at all.\<close>

definition box_key :: "WordBox \<Rightarrow> dedupe_key option" where
  "box_key box = (case box of (left, topp, width, height, txt, conf) \<Rightarrow>
     if normalize_box_text txt = [] then None
     else Some (normalize_box_text txt, left div 6, topp div 6))"

text \<open>The invariant of the loop: keys are distinct and every box is stored under its key.\<close>

definition keyed :: "(dedupe_key \<times> WordBox) list \<Rightarrow> bool" where
  "keyed d = (distinct (map fst d) \<and> (\<forall>(k, b) \<in> set d. box_key b = Some k))"

section \<open>Regular expressions\<close>

text \<open>
  The patterns of the source use character classes, sequences, one alternation and
  greedy quantifiers \<open>*\<close>, \<open>+\<close>, \<open>?\<close> and \<open>{m,n}\<close>. \<open>Rep r m None\<close> is \<open>r{m,}\<close> and
  \<open>Rep r m (Some n)\<close> is \<open>r{m,n}\<close>.
\<close>

datatype regex =
    Chr "codepoint \<Rightarrow> bool"
  | Seq regex regex
  | Alt regex regex
  | Rep regex nat "nat option"

text \<open>The nesting depth of a pattern: the measure for the termination of the matcher.\<close>

fun rdepth :: "regex \<Rightarrow> nat" where
  "rdepth (Chr p) = 0"
| "rdepth (Seq r1 r2) = Suc (rdepth r1 + rdepth r2)"
| "rdepth (Alt r1 r2) = Suc (rdepth r1 + rdepth r2)"
| "rdepth (Rep r lo hi) = Suc (rdepth r)"

text \<open>
  Python's \<open>re\<close> is a backtracking matcher. \<open>matches r s\<close> lists, in the order in which
  backtracking tries them, the rests of \<open>s\<close> after each way of matching \<open>r\<close> at the start
  of \<open>s\<close>: the first alternative before the second, more repetitions before fewer. The
  match that \<open>re\<close> reports is the head of the list. A repetition goes on only after an
  iteration that consumed input.
\<close>

function matches :: "regex \<Rightarrow> ustr \<Rightarrow> ustr list" where
  "matches (Chr p) s = (case s of [] \<Rightarrow> [] | c # s' \<Rightarrow> if p c then [s'] else [])"
| "matches (Seq r1 r2) s = concat (map (matches r2) (matches r1 s))"
| "matches (Alt r1 r2) s = matches r1 s @ matches r2 s"
| "matches (Rep r lo hi) s =
    (if hi = Some 0 then [s]
     else concat (map (matches (Rep r (lo - 1) (map_option (\<lambda>n. n - 1) hi)))
                      (filter (\<lambda>s'. length s' < length s) (matches r s)))
          @ (if lo = 0 then [s] else []))"
  by pat_completeness auto
termination
  by (relation "measures [\<lambda>(r, s). rdepth r, \<lambda>(r, s). length s]") auto

text \<open>
  \<open>re.findall\<close> for a pattern without capture groups: the matched substrings, scanning
  from left to right, each search starting where the last match ended, or one character
  further where nothing matched (or the match was empty; no pattern of the source matches
  the empty string).
\<close>

function findall :: "regex \<Rightarrow> ustr \<Rightarrow> ustr list" where
  "findall r s =
    (case matches r s of
       [] \<Rightarrow> (case s of [] \<Rightarrow> [] | c # s' \<Rightarrow> findall r s')
     | rest # others \<Rightarrow>
         (let n = length s - length rest in
          if n = 0 then [] # (case s of [] \<Rightarrow> [] | c # s' \<Rightarrow> findall r s')
          else take n s # findall r (drop n s)))"
  by pat_completeness auto
termination
  by (relation "measure (\<lambda>(r, s). length s)") auto

section \<open>Scoring an OCR candidate\<close>

text \<open>
  \<open>str.isalnum\<close>, the class \<open>\d\<close> (a Unicode decimal digit, \<open>str.isdecimal\<close>) and the class
  \<open>\s\<close> (\<open>str.isspace\<close>) are tables of the Unicode character database, which is not part
  of the repository: they are parameters of the model. \<open>ascii_tables\<close> are the tables
  restricted to ASCII, for concrete inputs.
\<close>

record unicode_tables =
  isalnum :: "codepoint \<Rightarrow> bool"
  isdecimal :: "codepoint \<Rightarrow> bool"
  isspace :: "codepoint \<Rightarrow> bool"

definition ascii_tables :: unicode_tables where
  "ascii_tables =
    \<lparr>isalnum = (\<lambda>c. latin_upper c \<or> latin_lower c \<or> ascii_digit c),
     isdecimal = ascii_digit,
     isspace = (\<lambda>c. between 9 13 c \<or> between 28 32 c)\<rparr>"

text \<open>
  The classes \<open>[A-Za-z]\<close>, \<open>[A-Za-z\<dots>0-9._/-]\<close> (with the Cyrillic ranges),
  \<open>[-_/]\<close>, \<open>[A-Za-z0-9._/-]\<close> and \<open>[.,]\<close>; the code points of \<open>. _ / - ,\<close> are
  46, 95, 47, 45 and 44.
\<close>

definition latin_letter :: "codepoint \<Rightarrow> bool" where
  "latin_letter c = (latin_upper c \<or> latin_lower c)"

definition token_tail_char :: "codepoint \<Rightarrow> bool" where
  "token_tail_char c = (word_char c \<or> c = 46 \<or> c = 95 \<or> c = 47 \<or> c = 45)"

definition eng_separator :: "codepoint \<Rightarrow> bool" where
  "eng_separator c = (c = 45 \<or> c = 95 \<or> c = 47)"

definition eng_tail_char :: "codepoint \<Rightarrow> bool" where
  "eng_tail_char c =
    (latin_upper c \<or> latin_lower c \<or> ascii_digit c \<or> c = 46 \<or> c = 95 \<or> c = 47 \<or> c = 45)"

definition point_or_comma :: "codepoint \<Rightarrow> bool" where
  "point_or_comma c = (c = 46 \<or> c = 44)"

text \<open>
  \<open>token_pattern\<close>, \<open>eng_pattern\<close> and the pattern of the numeric tokens
  \<open>\d+(?:[.,]\d+)?\<close> of \<open>_analyze_ocr_pdf\<close>.
\<close>

definition token_pattern :: regex where
  "token_pattern = Seq (Chr word_char) (Rep (Chr token_tail_char) 0 None)"

definition eng_pattern :: "unicode_tables \<Rightarrow> regex" where
  "eng_pattern U =
    Alt (Seq (Rep (Chr latin_letter) 1 (Some 6))
          (Seq (Rep (Chr eng_separator) 0 (Some 1))
            (Seq (Rep (Chr (isdecimal U)) 1 (Some 8))
              (Rep (Chr eng_tail_char) 0 None))))
        (Seq (Rep (Chr (isdecimal U)) 1 (Some 8))
          (Seq (Rep (Chr latin_letter) 1 (Some 6))
            (Rep (Chr eng_tail_char) 0 None)))"

definition numeric_pattern :: "unicode_tables \<Rightarrow> regex" where
  "numeric_pattern U =
    Seq (Rep (Chr (isdecimal U)) 1 None)
        (Rep (Seq (Chr point_or_comma) (Rep (Chr (isdecimal U)) 1 None)) 0 (Some 1))"

text \<open>
  \<open>_analyze_ocr_pdf\<close>, on the text that \<open>extract_text\<close> returns for the candidate PDF
  (\<open>extract_text(...) or ""\<close>; the extraction itself is pdfminer's).
\<close>

definition analyze_ocr_pdf :: "unicode_tables \<Rightarrow> ustr \<Rightarrow> Analysis" where
  "analyze_ocr_pdf U txt =
    (let alnum = int (length (filter (isalnum U) txt));
         tokens = filter (\<lambda>token. length token \<ge> 2) (findall token_pattern txt);
         eng_tokens = findall (eng_pattern U) txt;
         numeric_tokens = findall (numeric_pattern U) txt;
         total = alnum + 2 * int (length tokens) + 5 * int (length eng_tokens)
     in \<lparr>score = Some total,
         alnum_chars = Some alnum,
         token_count = Some (int (length tokens)),
         eng_token_count = Some (int (length eng_tokens)),
         numeric_token_count = Some (int (length numeric_tokens))\<rparr>)"

section \<open>Profile attempts for a page\<close>

text \<open>
  A profile dictionary of \<open>_build_page_profiles\<close>, the record of one attempt
  (\<open>attempt_info\<close>; \<open>attempt_score\<close> is its key \<open>"score"\<close>), and the local variables of
  the loop of \<open>_run_ocr_attempts_for_page\<close>. The candidate file
  \<open>ocr_page_<page>_try_<attempt_idx>.pdf\<close> is identified by its attempt index.
\<close>

record Profile =
  name :: string
  psm :: "int option"
  oversample :: "int option"
  remove_background :: bool
  clean :: bool
  clean_final :: bool
  remove_vectors :: bool
  thresholding :: "string option"

record AttemptInfo =
  attempt :: nat
  profile :: string
  attempt_score :: int
  tokens :: int
  eng_tokens :: int
  num_tokens :: int
  selection_score :: int

record AttemptState =
  attempts :: "AttemptInfo list"
  best_candidate :: "nat option"
  best_profile :: "Profile option"
  best_analysis :: Analysis
  best_selection_score :: int

text \<open>\<open>_candidate_selection_score\<close>.\<close>

definition candidate_selection_score :: "Analysis \<Rightarrow> bool \<Rightarrow> error + int" where
  "candidate_selection_score analysis drawing =
    bind_err (subscript ''score'' (score analysis)) (\<lambda>base.
      (let eng = get_or (eng_token_count analysis) 0;
           numeric = get_or (numeric_token_count analysis) 0;
           toks = get_or (token_count analysis) 0
       in if drawing then Inr (base + 65 * eng + 30 * numeric + 2 * toks)
          else Inr (base + 20 * eng + 8 * numeric)))"

text \<open>The values of the local variables before the loop.\<close>

definition initial_attempt_state :: AttemptState where
  "initial_attempt_state =
    \<lparr>attempts = [],
     best_candidate = None,
     best_profile = None,
     best_analysis = \<lparr>score = Some (- 1), alnum_chars = None, token_count = Some 0,
                       eng_token_count = Some 0, numeric_token_count = Some 0\<rparr>,
     best_selection_score = - 1\<rparr>"

text \<open>
  One iteration of the loop. \<open>ocr attempt_idx prof\<close> stands for the external part of the
  iteration: evaluating the arguments of \<open>run_ocr\<close>, running it on the page with the
  profile, and \<open>extract_text\<close> on the candidate it wrote; it either raises or yields the
  text of the candidate. The progress reports (\<open>_update_page_detail\<close>) write to the job
  registry only and are left out.
\<close>

definition attempt_step ::
  "unicode_tables \<Rightarrow> Settings \<Rightarrow> (nat \<Rightarrow> Profile \<Rightarrow> error + ustr) \<Rightarrow> AttemptState \<Rightarrow> nat \<Rightarrow> Profile
     \<Rightarrow> error + AttemptState" where
  "attempt_step U settings ocr st attempt_idx prof =
    bind_err (ocr attempt_idx prof) (\<lambda>txt.
      (let analysis = analyze_ocr_pdf U txt in
       bind_err (subscript ''score'' (score analysis)) (\<lambda>s.
       bind_err (subscript ''token_count'' (token_count analysis)) (\<lambda>t.
       bind_err (subscript ''eng_token_count'' (eng_token_count analysis)) (\<lambda>e.
       bind_err (subscript ''numeric_token_count'' (numeric_token_count analysis)) (\<lambda>n.
       bind_err (subscript ''drawing_mode'' (drawing_mode settings)) (\<lambda>drawing.
       bind_err (candidate_selection_score analysis drawing) (\<lambda>sel.
         (let attempt_info = \<lparr>attempt = attempt_idx, profile = name prof, attempt_score = s,
                                tokens = t, eng_tokens = e, num_tokens = n,
                                selection_score = sel\<rparr>;
              st1 = st\<lparr>attempts := attempts st @ [attempt_info]\<rparr>
          in if sel > best_selection_score st1
             then Inr (st1\<lparr>best_selection_score := sel, best_analysis := analysis,
                           best_profile := Some prof, best_candidate := Some attempt_idx\<rparr>)
             else Inr st1)))))))))"

text \<open>\<open>for attempt_idx, profile in enumerate(profiles, start=1)\<close>: the index is counted up.\<close>

fun attempts_loop ::
  "unicode_tables \<Rightarrow> Settings \<Rightarrow> (nat \<Rightarrow> Profile \<Rightarrow> error + ustr) \<Rightarrow> AttemptState \<Rightarrow> nat \<Rightarrow> Profile list
     \<Rightarrow> error + AttemptState" where
  "attempts_loop U settings ocr st attempt_idx [] = Inr st"
| "attempts_loop U settings ocr st attempt_idx (prof # rest) =
    bind_err (attempt_step U settings ocr st attempt_idx prof) (\<lambda>st'.
      attempts_loop U settings ocr st' (Suc attempt_idx) rest)"

text \<open>
  \<open>_run_ocr_attempts_for_page\<close>: the result is the best candidate (by its attempt index),
  its profile, its analysis and the list of attempts.
\<close>

definition run_ocr_attempts_for_page ::
  "unicode_tables \<Rightarrow> Settings \<Rightarrow> (nat \<Rightarrow> Profile \<Rightarrow> error + ustr) \<Rightarrow> Profile list
     \<Rightarrow> error + (nat \<times> Profile \<times> Analysis \<times> AttemptInfo list)" where
  "run_ocr_attempts_for_page U settings ocr profiles =
    bind_err (attempts_loop U settings ocr initial_attempt_state 1 profiles) (\<lambda>st.
      case (best_candidate st, best_profile st) of
        (Some cand, Some prof) \<Rightarrow> Inr (cand, prof, best_analysis st, attempts st)
      | _ \<Rightarrow> Inl (RuntimeError ''No OCR result produced for page''))"

text \<open>
  The selection score of the candidate with text \<open>txt\<close>. (\<open>_candidate_selection_score\<close>
  never raises on an analysis of \<open>_analyze_ocr_pdf\<close>, see \<open>selection_score_analyze\<close>.)
\<close>

definition selection_of :: "unicode_tables \<Rightarrow> bool \<Rightarrow> ustr \<Rightarrow> int" where
  "selection_of U drawing txt =
    (case candidate_selection_score (analyze_ocr_pdf U txt) drawing of Inr v \<Rightarrow> v | Inl e \<Rightarrow> 0)"

text \<open>
  The invariant of the loop after the profiles \<open>profs\<close> have produced the texts
  \<open>texts\<close>: before the first attempt nothing is selected; afterwards the selected attempt
  has the greatest selection score so far, and every earlier attempt a smaller one.
\<close>

definition tracked :: "unicode_tables \<Rightarrow> bool \<Rightarrow> Profile list \<Rightarrow> ustr list \<Rightarrow> AttemptState \<Rightarrow> bool" where
  "tracked U drawing profs texts st =
    (length texts = length profs
     \<and> map selection_score (attempts st) = map (selection_of U drawing) texts
     \<and> (if profs = []
          then best_candidate st = None \<and> best_profile st = None \<and> best_selection_score st = - 1
          else (\<exists>i < length profs.
                  best_candidate st = Some (Suc i)
                  \<and> best_profile st = Some (profs ! i)
                  \<and> best_analysis st = analyze_ocr_pdf U (texts ! i)
                  \<and> best_selection_score st = selection_of U drawing (texts ! i)
                  \<and> (\<forall>j < length profs.
                        selection_of U drawing (texts ! j) \<le> selection_of U drawing (texts ! i))
                  \<and> (\<forall>j < i.
                        selection_of U drawing (texts ! j) < selection_of U drawing (texts ! i)))))"

text \<open>\<open>_build_page_profiles\<close>.\<close>

definition build_page_profiles :: "Settings \<Rightarrow> error + Profile list" where
  "build_page_profiles settings =
    bind_err (subscript ''drawing_mode'' (drawing_mode settings)) (\<lambda>drawing.
      if \<not> drawing then
        Inr [\<lparr>name = ''standard'', psm = None, oversample = None, remove_background = False,
              clean = False, clean_final = False, remove_vectors = False,
              thresholding = None\<rparr>]
      else
        Inr [\<lparr>name = ''draw-sparse-a'', psm = Some 11, oversample = Some 450,
              remove_background = True, clean = False, clean_final = False,
              remove_vectors = False, thresholding = Some ''adaptive-otsu''\<rparr>,
             \<lparr>name = ''draw-lines-b'', psm = Some 6, oversample = Some 650,
              remove_background = False, clean = False, clean_final = False,
              remove_vectors = True, thresholding = Some ''sauvola''\<rparr>,
             \<lparr>name = ''draw-grid-c'', psm = Some 4, oversample = Some 550,
              remove_background = True, clean = False, clean_final = False,
              remove_vectors = False, thresholding = Some ''otsu''\<rparr>])"

section \<open>Vertical-text scan on a rotated image\<close>

text \<open>The double literal \<open>1.15\<close>, and \<open>int(mapped_width * 1.15)\<close>.\<close>

definition double_1_15 :: pyfloat where
  "double_1_15 = 2589569785738035 / 2251799813685248"

definition vertical_min_height :: "int \<Rightarrow> int" where
  "vertical_min_height mapped_width = int_of_float (fmul (float_of_int mapped_width) double_1_15)"

text \<open>
  The loop of \<open>_extract_word_boxes_rotated\<close> over the boxes detected on the rotated image:
  a box that cannot be mapped is skipped, and with \<open>keep_vertical_only\<close> a mapped box with
  \<open>mapped_height < int(mapped_width * 1.15)\<close> is skipped too.
\<close>

fun map_detected_boxes :: "int \<Rightarrow> int \<Rightarrow> int \<Rightarrow> bool \<Rightarrow> WordBox list \<Rightarrow> WordBox list" where
  "map_detected_boxes original_width original_height angle keep_vertical_only [] = []"
| "map_detected_boxes original_width original_height angle keep_vertical_only
      ((left, topp, width, height, txt, conf) # rest) =
    (case map_rotated_box_to_original left topp width height txt conf
            original_width original_height angle of
       None \<Rightarrow> map_detected_boxes original_width original_height angle keep_vertical_only rest
     | Some (mapped_left, mapped_top, mapped_width, mapped_height, mapped_txt, mapped_conf) \<Rightarrow>
         if keep_vertical_only \<and> mapped_height < vertical_min_height mapped_width
         then map_detected_boxes original_width original_height angle keep_vertical_only rest
         else (mapped_left, mapped_top, mapped_width, mapped_height, mapped_txt, mapped_conf)
              # map_detected_boxes original_width original_height angle keep_vertical_only rest)"

text \<open>
  \<open>_extract_word_boxes_rotated\<close> on an image of size \<open>original_width\<close> x
  \<open>original_height\<close>. \<open>detected\<close> is the outcome of the external part: rotating the image
  and running \<open>_extract_word_boxes\<close> (tesseract) on it, which raises or returns the boxes
  in the rotated frame.
\<close>

definition extract_word_boxes_rotated ::
  "error + WordBox list \<Rightarrow> int \<Rightarrow> int \<Rightarrow> int \<Rightarrow> bool \<Rightarrow> error + WordBox list" where
  "extract_word_boxes_rotated detected original_width original_height angle keep_vertical_only =
    (if angle \<noteq> 90 \<and> angle \<noteq> 270 then Inl (ValueError ''angle must be 90 or 270'')
     else bind_err detected (\<lambda>rotated_boxes.
            Inr (map_detected_boxes original_width original_height angle keep_vertical_only
                   rotated_boxes)))"

text \<open>The mapping applied to a detected box, and the test that a mapped box passes.\<close>

definition map_box :: "int \<Rightarrow> int \<Rightarrow> int \<Rightarrow> WordBox \<Rightarrow> WordBox option" where
  "map_box original_width original_height angle box =
    (case box of (left, topp, width, height, txt, conf) \<Rightarrow>
       map_rotated_box_to_original left topp width height txt conf
         original_width original_height angle)"

definition tall_enough :: "WordBox \<Rightarrow> bool" where
  "tall_enough box =
    (case box of (mapped_left, mapped_top, mapped_width, mapped_height, txt, conf) \<Rightarrow>
       int_of_float (fmul (float_of_int mapped_width) double_1_15) \<le> mapped_height)"

section \<open>Properties of the rescue escalation\<close>

text \<open>
  Claim C2. Rescue escalation is monotonic in the score: with deep verification enabled
  (in drawing mode and in standard mode alike), if \<open>_should_run_rescue_pass\<close> answers
  true for an analysis with score \<open>s\<close>, it answers true for every analysis with a smaller
  score \<open>s'\<close> whose token counts are the same, on the same coverage record.
\<close>

theorem rescue_pass_monotone_in_score:
  assumes "deep_verify settings = Some True"
    and "should_run_rescue_pass a coverage settings = Inr True"
    and "score a = Some s" and "score a' = Some s'" and "s' < s"
    and "token_count a' = token_count a"
    and "eng_token_count a' = eng_token_count a"
    and "numeric_token_count a' = numeric_token_count a"
  shows "should_run_rescue_pass a' coverage settings = Inr True"
proof (cases "drawing_mode settings")
  case None
  with assms(1,2) show ?thesis
    by (simp add: should_run_rescue_pass_def)
next
  case (Some dm)
  show ?thesis
  proof (cases dm)
    case False
    with Some assms show ?thesis
      by (simp add: should_run_rescue_pass_def)
  next
    case True
    show ?thesis
    proof (cases "s' < 420")
      case lt: True
      with Some True assms(1,4) show ?thesis
        by (simp add: should_run_rescue_pass_def Let_def)
    next
      case ge: False
      with assms(5) have s: "\<not> s < 420" by simp
      from assms(2) Some True assms(1,3) s obtain e where e: "eng_token_count a = Some e"
        by (cases "eng_token_count a") (simp_all add: should_run_rescue_pass_def Let_def)
      from assms(2) Some True assms(1,3,4,5,7) s ge e show ?thesis
        by (simp add: should_run_rescue_pass_def Let_def split: if_splits)
    qed
  qed
qed

theorem rescue_pass_monotone_in_score_witness:
  "should_run_rescue_pass
     \<lparr>score = Some 650, alnum_chars = None, token_count = None,
      eng_token_count = Some 9, numeric_token_count = None\<rparr>
     \<lparr>full_words = Some 10, tile_words = Some 40, combined_words = Some 60,
      gain_ratio = Some 3, vertical_words = None, table_words = None, word_boxes = None\<rparr>
     \<lparr>drawing_mode = Some True, deep_verify = Some True\<rparr> = Inr True
   \<and> should_run_rescue_pass
     \<lparr>score = Some 500, alnum_chars = None, token_count = None,
      eng_token_count = Some 9, numeric_token_count = None\<rparr>
     \<lparr>full_words = Some 10, tile_words = Some 40, combined_words = Some 60,
      gain_ratio = Some 3, vertical_words = None, table_words = None, word_boxes = None\<rparr>
     \<lparr>drawing_mode = Some True, deep_verify = Some True\<rparr> = Inr True"
proof -
  let ?a = "\<lparr>score = Some 650, alnum_chars = None, token_count = None,
      eng_token_count = Some 9, numeric_token_count = None\<rparr>"
  let ?a' = "\<lparr>score = Some 500, alnum_chars = None, token_count = None,
      eng_token_count = Some 9, numeric_token_count = None\<rparr>"
  let ?c = "\<lparr>full_words = Some 10, tile_words = Some 40, combined_words = Some 60,
      gain_ratio = Some 3, vertical_words = None, table_words = None, word_boxes = None\<rparr>"
  let ?s = "\<lparr>drawing_mode = Some True, deep_verify = Some True\<rparr>"
  have run: "should_run_rescue_pass ?a ?c ?s = Inr True"
    by (simp add: should_run_rescue_pass_def get_or_def double_0_35_def)
  have "should_run_rescue_pass ?a' ?c ?s = Inr True"
    by (rule rescue_pass_monotone_in_score [where a = ?a and s = 650 and s' = 500, OF _ run])
       simp_all
  with run show ?thesis by simp
qed

text \<open>
  Claim C5. In drawing mode \<open>_needs_manual_review\<close> answers true whenever the coverage
  record's \<open>combined_words\<close> is below 40, whatever the score, the token counts, the tile
  words and the gain ratio are; a page with \<open>combined_words = 30\<close> is flagged.
\<close>

theorem manual_review_when_few_combined_words:
  assumes "drawing_mode settings = Some True"
    and "combined_words coverage = Some c" and "c < 40"
    and "score a = Some s" and "eng_token_count a = Some e"
  shows "needs_manual_review a coverage settings = Inr True"
  using assms by (simp add: needs_manual_review_def get_or_def Let_def)

theorem manual_review_when_few_combined_words_witness:
  "needs_manual_review
     \<lparr>score = Some 5000, alnum_chars = Some 3000, token_count = Some 400,
      eng_token_count = Some 200, numeric_token_count = Some 50\<rparr>
     \<lparr>full_words = Some 30, tile_words = Some 30, combined_words = Some 30,
      gain_ratio = Some 0, vertical_words = Some 0, table_words = Some 0, word_boxes = None\<rparr>
     \<lparr>drawing_mode = Some True, deep_verify = Some True\<rparr> = Inr True"
  by (rule manual_review_when_few_combined_words [where c = 30]) simp_all

section \<open>Properties of the rotation mapping\<close>

text \<open>
  The round trip on the same dimensions fails. The box \<open>(10, 20, 30, 40)\<close> lies within
  the 200 x 100 image and within its rotation (100 x 200). Mapped with angle 90 and then
  with angle 270, both on 200 x 100, it comes back as \<open>(10, 0, 30, 40)\<close>: the top edge is
  off by 20 pixels. Mapped with 270 and then with 90 it comes back as
  \<open>(110, 20, 30, 40)\<close>: the left edge is off by 100 pixels. All coordinates are integers,
  so no rounding is involved.
\<close>

theorem rotation_round_trip_same_dimensions_counterexample:
  "box_within (10, 20, 30, 40, ascii ''TXT'', 88) 200 100
   \<and> box_within (10, 20, 30, 40, ascii ''TXT'', 88) 100 200
   \<and> map_rotated_twice 90 200 100 270 200 100 (10, 20, 30, 40, ascii ''TXT'', 88)
       = Some (10, 0, 30, 40, ascii ''TXT'', 88)
   \<and> box_distance (10, 0, 30, 40, ascii ''TXT'', 88) (10, 20, 30, 40, ascii ''TXT'', 88) = 20
   \<and> map_rotated_twice 270 200 100 90 200 100 (10, 20, 30, 40, ascii ''TXT'', 88)
       = Some (110, 20, 30, 40, ascii ''TXT'', 88)
   \<and> box_distance (110, 20, 30, 40, ascii ''TXT'', 88) (10, 20, 30, 40, ascii ''TXT'', 88) = 100"
proof -
  let ?x = "ascii ''TXT''"
  have in1: "box_within (10, 20, 30, 40, ?x, 88) 200 100"
    and in2: "box_within (10, 20, 30, 40, ?x, 88) 100 200"
    by (simp_all add: box_within_def)
  have m90: "map_rotated_box_to_original 10 20 30 40 ?x 88 200 100 90
      = Some (140, 10, 40, 30, ?x, 88)"
    by (simp add: map_rotated_box_to_original_def Let_def)
  have back270: "map_rotated_box_to_original 140 10 40 30 ?x 88 200 100 270
      = Some (10, 0, 30, 40, ?x, 88)"
    by (simp add: map_rotated_box_to_original_def Let_def)
  have m270: "map_rotated_box_to_original 10 20 30 40 ?x 88 200 100 270
      = Some (20, 60, 40, 30, ?x, 88)"
    by (simp add: map_rotated_box_to_original_def Let_def)
  have back90: "map_rotated_box_to_original 20 60 40 30 ?x 88 200 100 90
      = Some (110, 20, 30, 40, ?x, 88)"
    by (simp add: map_rotated_box_to_original_def Let_def)
  have r1: "map_rotated_twice 90 200 100 270 200 100 (10, 20, 30, 40, ?x, 88)
      = Some (10, 0, 30, 40, ?x, 88)"
    by (simp only: map_rotated_twice_def prod.case m90 option.case back270)
  have r2: "map_rotated_twice 270 200 100 90 200 100 (10, 20, 30, 40, ?x, 88)
      = Some (110, 20, 30, 40, ?x, 88)"
    by (simp only: map_rotated_twice_def prod.case m270 option.case back90)
  have d1: "box_distance (10, 0, 30, 40, ?x, 88) (10, 20, 30, 40, ?x, 88) = 20"
    and d2: "box_distance (110, 20, 30, 40, ?x, 88) (10, 20, 30, 40, ?x, 88) = 100"
    by (simp_all add: box_distance_def)
  from in1 in2 r1 d1 r2 d2 show ?thesis
    by (intro conjI)
qed

lemma map_rotated_90_within:
  assumes "0 \<le> l" "0 \<le> t" "1 \<le> w" "1 \<le> h" "l + w \<le> H" "t + h \<le> W"
  shows "map_rotated_box_to_original l t w h x c W H 90 = Some (W - (t + h), l, h, w, x, c)"
proof -
  have 1: "max 0 (min (W - 1) (W - (t + h))) = W - (t + h)"
    using assms by linarith
  have 2: "max 0 (min (H - 1) l) = l"
    using assms by linarith
  have 3: "max 1 (min h (t + h)) = h"
    using assms by linarith
  have 4: "max 1 (min w (H - l)) = w"
    using assms by linarith
  show ?thesis
    by (simp add: map_rotated_box_to_original_def Let_def 1 2 3 4)
qed

lemma map_rotated_270_within:
  assumes "0 \<le> l" "0 \<le> t" "1 \<le> w" "1 \<le> h" "l + w \<le> H" "t + h \<le> W"
  shows "map_rotated_box_to_original l t w h x c W H 270 = Some (t, H - (l + w), h, w, x, c)"
proof -
  have 1: "max 0 (min (W - 1) t) = t"
    using assms by linarith
  have 2: "max 0 (min (H - 1) (H - (l + w))) = H - (l + w)"
    using assms by linarith
  have 3: "max 1 (min h (W - t)) = h"
    using assms by linarith
  have 4: "max 1 (min w (H - (H - (l + w)))) = w"
    using assms by linarith
  have "map_rotated_box_to_original l t w h x c W H 270 =
     Some (max 0 (min (W - 1) t), max 0 (min (H - 1) (H - (l + w))),
       max 1 (min h (W - max 0 (min (W - 1) t))),
       max 1 (min w (H - max 0 (min (H - 1) (H - (l + w))))), x, c)"
    by (simp add: map_rotated_box_to_original_def Let_def)
  then show ?thesis
    by (simp only: 1 2 3 4)
qed

text \<open>
  Claim C4 (amended). \<open>_map_rotated_box_to_original\<close> maps from the rotated frame to the
  original frame, so the second mapping of a round trip has to be taken on the dimensions
  of the rotated image (width and height swapped). For every box that lies within the
  rotated image (\<open>original_height\<close> wide and \<open>original_width\<close> high), mapping with angle 90
  on \<open>original_width\<close> x \<open>original_height\<close> and then with angle 270 on the swapped
  dimensions returns exactly the box, and so does 270 first and then 90. With the same
  dimensions in both steps this is the case of a square image.
\<close>

theorem rotation_round_trip_swapped_dimensions:
  assumes "box_within box original_height original_width"
  shows "map_rotated_twice 90 original_width original_height 270 original_height original_width box
           = Some box
       \<and> map_rotated_twice 270 original_width original_height 90 original_height original_width box
           = Some box"
proof -
  obtain l t w h x c where box: "box = (l, t, w, h, x, c)"
    by (cases box)
  from assms box have b: "0 \<le> l" "0 \<le> t" "1 \<le> w" "1 \<le> h"
      "l + w \<le> original_height" "t + h \<le> original_width"
    by (simp_all add: box_within_def)
  let ?W = original_width and ?H = original_height
  have m90: "map_rotated_box_to_original l t w h x c ?W ?H 90 = Some (?W - (t + h), l, h, w, x, c)"
    using b by (rule map_rotated_90_within)
  have back270: "map_rotated_box_to_original (?W - (t + h)) l h w x c ?H ?W 270
      = Some (l, ?W - (?W - (t + h) + h), w, h, x, c)"
    by (rule map_rotated_270_within) (use b in simp_all)
  have m270: "map_rotated_box_to_original l t w h x c ?W ?H 270 = Some (t, ?H - (l + w), h, w, x, c)"
    using b by (rule map_rotated_270_within)
  have back90: "map_rotated_box_to_original t (?H - (l + w)) h w x c ?H ?W 90
      = Some (?H - (?H - (l + w) + w), t, w, h, x, c)"
    by (rule map_rotated_90_within) (use b in simp_all)
  have a1: "?W - (?W - (t + h) + h) = t" and a2: "?H - (?H - (l + w) + w) = l"
    by simp_all
  have "map_rotated_twice 90 ?W ?H 270 ?H ?W (l, t, w, h, x, c) = Some (l, t, w, h, x, c)"
    by (simp only: map_rotated_twice_def prod.case m90 option.case back270 a1)
  moreover have "map_rotated_twice 270 ?W ?H 90 ?H ?W (l, t, w, h, x, c) = Some (l, t, w, h, x, c)"
    by (simp only: map_rotated_twice_def prod.case m270 option.case back90 a2)
  ultimately show ?thesis
    by (simp only: box simp_thms)
qed

theorem rotation_round_trip_swapped_dimensions_witness:
  "map_rotated_twice 90 200 100 270 100 200 (10, 20, 30, 40, ascii ''TXT'', 88)
     = Some (10, 20, 30, 40, ascii ''TXT'', 88)
   \<and> map_rotated_twice 270 200 100 90 100 200 (10, 20, 30, 40, ascii ''TXT'', 88)
     = Some (10, 20, 30, 40, ascii ''TXT'', 88)"
proof -
  have "box_within (10, 20, 30, 40, ascii ''TXT'', 88) 100 200"
    by (simp add: box_within_def)
  then show ?thesis
    by (rule rotation_round_trip_swapped_dimensions)
qed

section \<open>Properties of the deduplication\<close>

lemma update_fresh: "k \<notin> fst ` set d \<Longrightarrow> AList.update k v d = d @ [(k, v)]"
  by (induction d) auto

lemma set_update_subset: "set (AList.update k v d) \<subseteq> insert (k, v) (set d)"
  by (induction d) auto

lemma keyed_update:
  assumes "keyed d" "box_key b = Some k"
  shows "keyed (AList.update k b d)"
proof -
  have "distinct (map fst (AList.update k b d))"
    using assms(1) by (simp add: keyed_def distinct_update)
  moreover have "\<forall>(k', b') \<in> set (AList.update k b d). box_key b' = Some k'"
    using assms set_update_subset [of k b d] by (auto simp: keyed_def)
  ultimately show ?thesis by (simp add: keyed_def)
qed

lemma dedupe_loop_step:
  "dedupe_loop d (b # rest) =
     (case box_key b of
        None \<Rightarrow> dedupe_loop d rest
      | Some k \<Rightarrow>
          (case map_of d k of
             None \<Rightarrow> dedupe_loop (AList.update k b d) rest
           | Some e \<Rightarrow> if snd (snd (snd (snd (snd b)))) > snd (snd (snd (snd (snd e))))
                       then dedupe_loop (AList.update k b d) rest else dedupe_loop d rest))"
  by (cases b) (auto simp: box_key_def Let_def split: option.splits)

lemma keyed_dedupe_loop: "keyed d \<Longrightarrow> keyed (dedupe_loop d bs)"
proof (induction bs arbitrary: d)
  case Nil
  then show ?case by simp
next
  case (Cons b bs)
  show ?case
    unfolding dedupe_loop_step
    using Cons.prems by (auto split: option.splits intro!: Cons.IH keyed_update)
qed

lemma dedupe_loop_keyed_again:
  "keyed (d0 @ d) \<Longrightarrow> dedupe_loop d0 (map snd d) = d0 @ d"
proof (induction d arbitrary: d0)
  case Nil
  then show ?case by simp
next
  case (Cons kb d)
  obtain k b where kb: "kb = (k, b)" by (cases kb)
  from Cons.prems kb have key: "box_key b = Some k"
    by (auto simp: keyed_def)
  from Cons.prems kb have fresh: "k \<notin> fst ` set d0"
    by (auto simp: keyed_def)
  then have none: "map_of d0 k = None"
    by (simp add: map_of_eq_None_iff)
  have upd: "AList.update k b d0 = d0 @ [(k, b)]"
    using fresh by (rule update_fresh)
  have "dedupe_loop d0 (map snd (kb # d)) = dedupe_loop (d0 @ [(k, b)]) (map snd d)"
    by (simp add: kb dedupe_loop_step key none upd del: dedupe_loop.simps)
  also have "\<dots> = (d0 @ [(k, b)]) @ d"
    using Cons.prems kb by (intro Cons.IH) simp
  finally show ?case by (simp add: kb)
qed

lemma keyed_Nil: "keyed []"
  by (simp add: keyed_def)

text \<open>
  Claim C3. Word-box deduplication is idempotent: for every list of boxes,
  \<open>_dedupe_word_boxes\<close> applied to its own result returns the same set of boxes; it
  returns the very same list, in the same order.
\<close>

theorem dedupe_word_boxes_idempotent:
  "dedupe_word_boxes (dedupe_word_boxes bs) = dedupe_word_boxes bs
   \<and> set (dedupe_word_boxes (dedupe_word_boxes bs)) = set (dedupe_word_boxes bs)"
proof -
  have "keyed ([] @ dedupe_loop [] bs)"
    using keyed_dedupe_loop [OF keyed_Nil] by simp
  then have "dedupe_loop [] (map snd (dedupe_loop [] bs)) = [] @ dedupe_loop [] bs"
    by (rule dedupe_loop_keyed_again)
  then have "dedupe_word_boxes (dedupe_word_boxes bs) = dedupe_word_boxes bs"
    by (simp add: dedupe_word_boxes_def)
  then show ?thesis by simp
qed

lemma dedupe_members_have_key:
  "b \<in> set (dedupe_word_boxes bs) \<Longrightarrow> box_key b \<noteq> None"
proof -
  assume "b \<in> set (dedupe_word_boxes bs)"
  then obtain k where "(k, b) \<in> set (dedupe_loop [] bs)"
    by (auto simp: dedupe_word_boxes_def)
  moreover have "keyed (dedupe_loop [] bs)"
    by (rule keyed_dedupe_loop [OF keyed_Nil])
  ultimately have "box_key b = Some k"
    by (fastforce simp: keyed_def)
  then show ?thesis by simp
qed

lemma no_word_char_no_key:
  "\<forall>c \<in> set txt. \<not> word_char c \<Longrightarrow> box_key (l, t, w, h, txt, c') = None"
  by (simp add: box_key_def normalize_box_text_def filter_empty_conv)

text \<open>
  Claim C9. Deduplication also filters: a box whose text has no character of
  \<open>[A-Za-z0-9]\<close> or of the Cyrillic ranges \<open>U+0410-U+044F\<close> (so, in particular, a box whose
  text has no Latin, Cyrillic or digit character at all) never is in the result of
  \<open>_dedupe_word_boxes\<close>, whatever the input list; the singleton list of such a box
  dedupes to the empty list.
\<close>

theorem dedupe_drops_boxes_without_word_chars:
  assumes "\<forall>c \<in> set txt. \<not> word_char c"
  shows "(left, topp, width, height, txt, conf) \<notin> set (dedupe_word_boxes bs)
       \<and> dedupe_word_boxes [(left, topp, width, height, txt, conf)] = []"
proof -
  have none: "box_key (left, topp, width, height, txt, conf) = None"
    using assms by (rule no_word_char_no_key)
  then have "(left, topp, width, height, txt, conf) \<notin> set (dedupe_word_boxes bs)"
    using dedupe_members_have_key by blast
  moreover have "dedupe_word_boxes [(left, topp, width, height, txt, conf)] = []"
    using none by (simp add: dedupe_word_boxes_def dedupe_loop_step del: dedupe_loop.simps(2))
  ultimately show ?thesis by simp
qed

lemmas char_class_defs =
  between_def latin_upper_def latin_lower_def ascii_digit_def cyrillic_upper_def
  cyrillic_lower_def word_char_def upper_char_def

lemma normalize_tag: "normalize_box_text (ascii ''TAG-101'') = ascii ''TAG101''"
  by (simp add: normalize_box_text_def ascii_def char_class_defs)

theorem dedupe_word_boxes_idempotent_witness:
  "dedupe_word_boxes [(10, 10, 20, 10, ascii ''TAG-101'', 90), (11, 10, 20, 10, ascii ''TAG-101'', 80)]
     = [(10, 10, 20, 10, ascii ''TAG-101'', 90)]
   \<and> dedupe_word_boxes [(10, 10, 20, 10, ascii ''TAG-101'', 90)]
     = [(10, 10, 20, 10, ascii ''TAG-101'', 90)]"
proof -
  let ?b1 = "(10, 10, 20, 10, ascii ''TAG-101'', 90) :: WordBox"
  let ?b2 = "(11, 10, 20, 10, ascii ''TAG-101'', 80) :: WordBox"
  have nonempty: "ascii ''TAG101'' \<noteq> []"
    by (simp add: ascii_def)
  have run: "dedupe_word_boxes [?b1, ?b2] = [?b1]"
    by (simp add: dedupe_word_boxes_def normalize_tag nonempty)
  from dedupe_word_boxes_idempotent [of "[?b1, ?b2]"]
  have "dedupe_word_boxes (dedupe_word_boxes [?b1, ?b2]) = dedupe_word_boxes [?b1, ?b2]"
    by (rule conjunct1)
  then have "dedupe_word_boxes [?b1] = [?b1]"
    by (simp only: run)
  with run show ?thesis by (rule conjI)
qed

theorem dedupe_drops_boxes_without_word_chars_witness:
  "dedupe_word_boxes [(30, 20, 10, 8, ascii ''###'', 95)] = []"
proof -
  have "\<forall>c \<in> set (ascii ''###''). \<not> word_char c"
    by (simp add: ascii_def char_class_defs)
  from dedupe_drops_boxes_without_word_chars [OF this, of 30 20 10 8 95 "[]"]
  show ?thesis by (rule conjunct2)
qed

section \<open>Properties of the scoring\<close>

text \<open>
  Claim C1. For every text extracted from an OCR candidate, the analysis that
  \<open>_analyze_ocr_pdf\<close> returns has \<open>alnum_chars\<close> the number of alphanumeric characters
  of the text, \<open>token_count\<close> the number of matches of the token pattern of length at
  least 2, \<open>eng_token_count\<close> the number of matches of the engineering pattern, and
  \<open>score = alnum_chars + 2 * token_count + 5 * eng_token_count\<close> exactly.
\<close>

theorem analysis_score_formula:
  "alnum_chars (analyze_ocr_pdf U txt) = Some (int (length (filter (isalnum U) txt)))
   \<and> token_count (analyze_ocr_pdf U txt)
       = Some (int (length (filter (\<lambda>token. 2 \<le> length token) (findall token_pattern txt))))
   \<and> eng_token_count (analyze_ocr_pdf U txt) = Some (int (length (findall (eng_pattern U) txt)))
   \<and> score (analyze_ocr_pdf U txt)
       = Some (int (length (filter (isalnum U) txt))
               + 2 * int (length (filter (\<lambda>token. 2 \<le> length token) (findall token_pattern txt)))
               + 5 * int (length (findall (eng_pattern U) txt)))"
  by (simp add: analyze_ocr_pdf_def Let_def)

lemma tokens_of_sample:
  "findall token_pattern (ascii ''V-1 a 25mm'') = [ascii ''V-1'', ascii ''a'', ascii ''25mm'']"
  by code_simp

lemma eng_tokens_of_sample:
  "findall (eng_pattern ascii_tables) (ascii ''V-1 a 25mm'') = [ascii ''V-1'', ascii ''25mm'']"
  by code_simp

lemma alnum_of_sample:
  "filter (isalnum ascii_tables) (ascii ''V-1 a 25mm'') = ascii ''V1a25mm''"
  by code_simp

theorem analysis_score_formula_witness:
  "score (analyze_ocr_pdf ascii_tables (ascii ''V-1 a 25mm'')) = Some 21
   \<and> alnum_chars (analyze_ocr_pdf ascii_tables (ascii ''V-1 a 25mm'')) = Some 7
   \<and> token_count (analyze_ocr_pdf ascii_tables (ascii ''V-1 a 25mm'')) = Some 2
   \<and> eng_token_count (analyze_ocr_pdf ascii_tables (ascii ''V-1 a 25mm'')) = Some 2"
proof -
  note formula = analysis_score_formula [of ascii_tables "ascii ''V-1 a 25mm''",
      unfolded tokens_of_sample eng_tokens_of_sample alnum_of_sample]
  have len: "length (ascii ''V1a25mm'') = 7" "length (ascii ''V-1'') = 3"
      "length (ascii ''a'') = 1" "length (ascii ''25mm'') = 4"
    by (simp_all add: ascii_def)
  from formula show ?thesis
    by (simp add: len)
qed

section \<open>Properties of the best-candidate tracking\<close>

lemma selection_score_analyze:
  "candidate_selection_score (analyze_ocr_pdf U txt) drawing = Inr (selection_of U drawing txt)"
  by (simp add: selection_of_def candidate_selection_score_def analyze_ocr_pdf_def Let_def
      bind_err_def subscript_def get_or_def)

lemma selection_of_nonneg: "0 \<le> selection_of U drawing txt"
  by (simp add: selection_of_def candidate_selection_score_def analyze_ocr_pdf_def Let_def
      bind_err_def subscript_def get_or_def)

lemma analyze_keys:
  "\<exists>s t e n. score (analyze_ocr_pdf U txt) = Some s \<and> token_count (analyze_ocr_pdf U txt) = Some t
     \<and> eng_token_count (analyze_ocr_pdf U txt) = Some e
     \<and> numeric_token_count (analyze_ocr_pdf U txt) = Some n"
  by (simp add: analyze_ocr_pdf_def Let_def)

lemma attempt_step_result:
  assumes "ocr attempt_idx prof = Inr txt" and "drawing_mode settings = Some drawing"
  shows "\<exists>info. selection_score info = selection_of U drawing txt
     \<and> attempt_step U settings ocr st attempt_idx prof =
       Inr (if selection_of U drawing txt > best_selection_score st
            then st\<lparr>attempts := attempts st @ [info],
                    best_selection_score := selection_of U drawing txt,
                    best_analysis := analyze_ocr_pdf U txt,
                    best_profile := Some prof,
                    best_candidate := Some attempt_idx\<rparr>
            else st\<lparr>attempts := attempts st @ [info]\<rparr>)"
proof -
  obtain s t e n where keys: "score (analyze_ocr_pdf U txt) = Some s"
      "token_count (analyze_ocr_pdf U txt) = Some t"
      "eng_token_count (analyze_ocr_pdf U txt) = Some e"
      "numeric_token_count (analyze_ocr_pdf U txt) = Some n"
    using analyze_keys by blast
  let ?info = "\<lparr>attempt = attempt_idx, profile = name prof, attempt_score = s,
                 tokens = t, eng_tokens = e, num_tokens = n,
                 selection_score = selection_of U drawing txt\<rparr>"
  have "attempt_step U settings ocr st attempt_idx prof =
       Inr (if selection_of U drawing txt > best_selection_score st
            then st\<lparr>attempts := attempts st @ [?info],
                    best_selection_score := selection_of U drawing txt,
                    best_analysis := analyze_ocr_pdf U txt,
                    best_profile := Some prof,
                    best_candidate := Some attempt_idx\<rparr>
            else st\<lparr>attempts := attempts st @ [?info]\<rparr>)"
    by (simp add: attempt_step_def assms keys bind_err_def subscript_def Let_def
        selection_score_analyze)
  moreover have "selection_score ?info = selection_of U drawing txt"
    by simp
  ultimately show ?thesis by blast
qed

lemma tracked_step:
  assumes inv: "tracked U drawing profs texts st"
    and ocr: "ocr (Suc (length profs)) prof = Inr txt"
    and dm: "drawing_mode settings = Some drawing"
  shows "\<exists>st'. attempt_step U settings ocr st (Suc (length profs)) prof = Inr st'
            \<and> tracked U drawing (profs @ [prof]) (texts @ [txt]) st'"
proof -
  let ?sel = "selection_of U drawing"
  let ?n = "length profs"
  from inv have len: "length texts = ?n"
    and atts: "map selection_score (attempts st) = map ?sel texts"
    by (simp_all add: tracked_def)
  from attempt_step_result [where ocr = ocr and U = U and st = st, OF ocr dm] obtain info where
    info: "selection_score info = ?sel txt" and
    step: "attempt_step U settings ocr st (Suc ?n) prof =
       Inr (if ?sel txt > best_selection_score st
            then st\<lparr>attempts := attempts st @ [info],
                    best_selection_score := ?sel txt,
                    best_analysis := analyze_ocr_pdf U txt,
                    best_profile := Some prof,
                    best_candidate := Some (Suc ?n)\<rparr>
            else st\<lparr>attempts := attempts st @ [info]\<rparr>)"
    by blast
  show ?thesis
  proof (cases "?sel txt > best_selection_score st")
    case True
    let ?st' = "st\<lparr>attempts := attempts st @ [info],
                    best_selection_score := ?sel txt,
                    best_analysis := analyze_ocr_pdf U txt,
                    best_profile := Some prof,
                    best_candidate := Some (Suc ?n)\<rparr>"
    have below: "\<forall>j < ?n. ?sel (texts ! j) < ?sel txt"
    proof (cases "profs = []")
      case True
      then show ?thesis by simp
    next
      case False
      with inv obtain i where i: "i < ?n"
          "best_selection_score st = ?sel (texts ! i)"
          "\<forall>j < ?n. ?sel (texts ! j) \<le> ?sel (texts ! i)"
        by (auto simp: tracked_def)
      with True show ?thesis by fastforce
    qed
    have "tracked U drawing (profs @ [prof]) (texts @ [txt]) ?st'"
      unfolding tracked_def
    proof (intro conjI)
      show "length (texts @ [txt]) = length (profs @ [prof])"
        using len by simp
      show "map selection_score (attempts ?st') = map ?sel (texts @ [txt])"
        using atts info by simp
      have "?n < length (profs @ [prof])
            \<and> best_candidate ?st' = Some (Suc ?n)
            \<and> best_profile ?st' = Some ((profs @ [prof]) ! ?n)
            \<and> best_analysis ?st' = analyze_ocr_pdf U ((texts @ [txt]) ! ?n)
            \<and> best_selection_score ?st' = ?sel ((texts @ [txt]) ! ?n)
            \<and> (\<forall>j < length (profs @ [prof]).
                  ?sel ((texts @ [txt]) ! j) \<le> ?sel ((texts @ [txt]) ! ?n))
            \<and> (\<forall>j < ?n. ?sel ((texts @ [txt]) ! j) < ?sel ((texts @ [txt]) ! ?n))"
        using below len by (auto simp: nth_append less_Suc_eq)
      then show "if profs @ [prof] = []
          then best_candidate ?st' = None \<and> best_profile ?st' = None
               \<and> best_selection_score ?st' = - 1
          else (\<exists>i < length (profs @ [prof]).
                  best_candidate ?st' = Some (Suc i)
                  \<and> best_profile ?st' = Some ((profs @ [prof]) ! i)
                  \<and> best_analysis ?st' = analyze_ocr_pdf U ((texts @ [txt]) ! i)
                  \<and> best_selection_score ?st' = ?sel ((texts @ [txt]) ! i)
                  \<and> (\<forall>j < length (profs @ [prof]).
                        ?sel ((texts @ [txt]) ! j) \<le> ?sel ((texts @ [txt]) ! i))
                  \<and> (\<forall>j < i. ?sel ((texts @ [txt]) ! j) < ?sel ((texts @ [txt]) ! i)))"
        by (simp only: append_is_Nil_conv list.distinct simp_thms if_False) blast
    qed
    with step True show ?thesis by simp
  next
    case False
    let ?st' = "st\<lparr>attempts := attempts st @ [info]\<rparr>"
    have nonempty: "profs \<noteq> []"
    proof
      assume "profs = []"
      with inv have "best_selection_score st = - 1"
        by (simp add: tracked_def)
      moreover have "0 \<le> selection_of U drawing txt"
        by (rule selection_of_nonneg)
      ultimately show False
        using False by simp
    qed
    with inv obtain i where i: "i < ?n"
        "best_candidate st = Some (Suc i)"
        "best_profile st = Some (profs ! i)"
        "best_analysis st = analyze_ocr_pdf U (texts ! i)"
        "best_selection_score st = ?sel (texts ! i)"
        "\<forall>j < ?n. ?sel (texts ! j) \<le> ?sel (texts ! i)"
        "\<forall>j < i. ?sel (texts ! j) < ?sel (texts ! i)"
      by (auto simp: tracked_def)
    have "tracked U drawing (profs @ [prof]) (texts @ [txt]) ?st'"
      unfolding tracked_def
    proof (intro conjI)
      show "length (texts @ [txt]) = length (profs @ [prof])"
        using len by simp
      show "map selection_score (attempts ?st') = map ?sel (texts @ [txt])"
        using atts info by simp
      have "i < length (profs @ [prof])
            \<and> best_candidate ?st' = Some (Suc i)
            \<and> best_profile ?st' = Some ((profs @ [prof]) ! i)
            \<and> best_analysis ?st' = analyze_ocr_pdf U ((texts @ [txt]) ! i)
            \<and> best_selection_score ?st' = ?sel ((texts @ [txt]) ! i)
            \<and> (\<forall>j < length (profs @ [prof]).
                  ?sel ((texts @ [txt]) ! j) \<le> ?sel ((texts @ [txt]) ! i))
            \<and> (\<forall>j < i. ?sel ((texts @ [txt]) ! j) < ?sel ((texts @ [txt]) ! i))"
        using i False len by (auto simp: nth_append less_Suc_eq)
      then show "if profs @ [prof] = []
          then best_candidate ?st' = None \<and> best_profile ?st' = None
               \<and> best_selection_score ?st' = - 1
          else (\<exists>i < length (profs @ [prof]).
                  best_candidate ?st' = Some (Suc i)
                  \<and> best_profile ?st' = Some ((profs @ [prof]) ! i)
                  \<and> best_analysis ?st' = analyze_ocr_pdf U ((texts @ [txt]) ! i)
                  \<and> best_selection_score ?st' = ?sel ((texts @ [txt]) ! i)
                  \<and> (\<forall>j < length (profs @ [prof]).
                        ?sel ((texts @ [txt]) ! j) \<le> ?sel ((texts @ [txt]) ! i))
                  \<and> (\<forall>j < i. ?sel ((texts @ [txt]) ! j) < ?sel ((texts @ [txt]) ! i)))"
        by (simp only: append_is_Nil_conv list.distinct simp_thms if_False) blast
    qed
    with step False show ?thesis by simp
  qed
qed

lemma tracked_loop:
  assumes "tracked U drawing profs texts st"
    and "length rtexts = length rest"
    and "\<forall>i < length rest. ocr (Suc (length profs + i)) (rest ! i) = Inr (rtexts ! i)"
    and "drawing_mode settings = Some drawing"
  shows "\<exists>st'. attempts_loop U settings ocr st (Suc (length profs)) rest = Inr st'
            \<and> tracked U drawing (profs @ rest) (texts @ rtexts) st'"
  using assms
proof (induction rest arbitrary: profs texts st rtexts)
  case Nil
  then show ?case by simp
next
  case (Cons prof rest)
  from Cons.prems(2) obtain tx later_texts where rt: "rtexts = tx # later_texts"
      and len_later: "length later_texts = length rest"
    by (cases rtexts) auto
  from Cons.prems(3) rt have first: "ocr (Suc (length profs)) prof = Inr tx"
    by fastforce
  from tracked_step [where ocr = ocr, OF Cons.prems(1) first Cons.prems(4)] obtain st1 where
    step: "attempt_step U settings ocr st (Suc (length profs)) prof = Inr st1"
    and inv1: "tracked U drawing (profs @ [prof]) (texts @ [tx]) st1"
    by blast
  have later: "\<forall>i < length rest.
      ocr (Suc (length (profs @ [prof]) + i)) (rest ! i) = Inr (later_texts ! i)"
  proof (intro allI impI)
    fix i assume "i < length rest"
    then have "Suc i < length (prof # rest)" by simp
    with Cons.prems(3) have "ocr (Suc (length profs + Suc i)) ((prof # rest) ! Suc i)
        = Inr (rtexts ! Suc i)"
      by blast
    then show "ocr (Suc (length (profs @ [prof]) + i)) (rest ! i) = Inr (later_texts ! i)"
      by (simp add: rt)
  qed
  from Cons.IH [OF inv1 len_later later Cons.prems(4)] obtain st2 where
    loop: "attempts_loop U settings ocr st1 (Suc (length (profs @ [prof]))) rest = Inr st2"
    and inv2: "tracked U drawing ((profs @ [prof]) @ rest) ((texts @ [tx]) @ later_texts) st2"
    by blast
  have "attempts_loop U settings ocr st (Suc (length profs)) (prof # rest) = Inr st2"
    using step loop by (simp add: bind_err_def)
  with inv2 rt show ?case by simp
qed

lemma tracked_initial: "tracked U drawing [] [] initial_attempt_state"
  by (simp add: tracked_def initial_attempt_state_def)

text \<open>
  Claim C6. For every non-empty list of profiles whose OCR runs all produce a text, the
  candidate that \<open>_run_ocr_attempts_for_page\<close> returns is the attempt with the highest
  selection score, and among attempts of equal selection score the earliest one: no
  attempt has a greater selection score, and every earlier attempt has a strictly smaller
  one.
\<close>

theorem best_attempt_is_first_maximum:
  assumes "profiles \<noteq> []"
    and "drawing_mode settings = Some drawing"
    and "length texts = length profiles"
    and "\<forall>i < length profiles. ocr (Suc i) (profiles ! i) = Inr (texts ! i)"
  shows "\<exists>i attempts_made.
      i < length profiles
      \<and> run_ocr_attempts_for_page U settings ocr profiles
          = Inr (Suc i, profiles ! i, analyze_ocr_pdf U (texts ! i), attempts_made)
      \<and> map selection_score attempts_made = map (selection_of U drawing) texts
      \<and> (\<forall>j < length profiles.
            candidate_selection_score (analyze_ocr_pdf U (texts ! j)) drawing
              = Inr (selection_of U drawing (texts ! j)))
      \<and> (\<forall>j < length profiles.
            selection_of U drawing (texts ! j) \<le> selection_of U drawing (texts ! i))
      \<and> (\<forall>j < i. selection_of U drawing (texts ! j) < selection_of U drawing (texts ! i))"
proof -
  have ocr: "\<forall>i < length profiles. ocr (Suc (length ([]::Profile list) + i)) (profiles ! i)
      = Inr (texts ! i)"
    using assms(4) by simp
  from tracked_loop [where ocr = ocr, OF tracked_initial assms(3) ocr assms(2), of U] obtain st where
    loop: "attempts_loop U settings ocr initial_attempt_state 1 profiles = Inr st"
    and inv: "tracked U drawing profiles texts st"
    by auto
  from inv assms(1) obtain i where i: "i < length profiles"
      "best_candidate st = Some (Suc i)"
      "best_profile st = Some (profiles ! i)"
      "best_analysis st = analyze_ocr_pdf U (texts ! i)"
      "\<forall>j < length profiles.
         selection_of U drawing (texts ! j) \<le> selection_of U drawing (texts ! i)"
      "\<forall>j < i. selection_of U drawing (texts ! j) < selection_of U drawing (texts ! i)"
    by (auto simp: tracked_def)
  from inv have atts: "map selection_score (attempts st) = map (selection_of U drawing) texts"
    by (simp add: tracked_def)
  have run: "run_ocr_attempts_for_page U settings ocr profiles
      = Inr (Suc i, profiles ! i, analyze_ocr_pdf U (texts ! i), attempts st)"
    using loop i(2,3,4) by (simp add: run_ocr_attempts_for_page_def bind_err_def)
  from i(1) run atts i(5,6) show ?thesis
    using selection_score_analyze by blast
qed

lemma sel_V1: "selection_of ascii_tables True (ascii ''V-1'') = 106"
  by code_simp
lemma sel_V2: "selection_of ascii_tables True (ascii ''V-2'') = 106"
  by code_simp
lemma sel_ab: "selection_of ascii_tables True (ascii ''ab'') = 6"
  by code_simp

theorem best_attempt_is_first_maximum_witness:
  "\<exists>p1 p2 p3 made.
     build_page_profiles \<lparr>drawing_mode = Some True, deep_verify = Some True\<rparr> = Inr [p1, p2, p3]
     \<and> run_ocr_attempts_for_page ascii_tables
          \<lparr>drawing_mode = Some True, deep_verify = Some True\<rparr>
          (\<lambda>attempt_idx prof. Inr ([ascii ''V-1'', ascii ''V-2'', ascii ''ab''] ! (attempt_idx - 1)))
          [p1, p2, p3]
        = Inr (1, p1, analyze_ocr_pdf ascii_tables (ascii ''V-1''), made)
     \<and> map selection_score made = [106, 106, 6]"
proof -
  let ?settings = "\<lparr>drawing_mode = Some True, deep_verify = Some True\<rparr>"
  let ?texts = "[ascii ''V-1'', ascii ''V-2'', ascii ''ab'']"
  let ?ocr = "\<lambda>attempt_idx (prof::Profile).
      (Inr (?texts ! (attempt_idx - 1)) :: error + ustr)"
  obtain p1 p2 p3 where profs: "build_page_profiles ?settings = Inr [p1, p2, p3]"
    by (simp add: build_page_profiles_def bind_err_def subscript_def)
  let ?profiles = "[p1, p2, p3]"
  have ocr: "\<forall>i < length ?profiles. ?ocr (Suc i) (?profiles ! i) = Inr (?texts ! i)"
    by simp
  from best_attempt_is_first_maximum [where profiles = ?profiles and settings = ?settings
      and drawing = True and texts = ?texts and ocr = ?ocr and U = ascii_tables, OF _ _ _ ocr]
  obtain i made where i: "i < 3"
    and run: "run_ocr_attempts_for_page ascii_tables ?settings ?ocr ?profiles
          = Inr (Suc i, ?profiles ! i, analyze_ocr_pdf ascii_tables (?texts ! i), made)"
    and made: "map selection_score made = map (selection_of ascii_tables True) ?texts"
    and le: "\<forall>j < 3. selection_of ascii_tables True (?texts ! j)
               \<le> selection_of ascii_tables True (?texts ! i)"
    and less: "\<forall>j < i. selection_of ascii_tables True (?texts ! j)
               < selection_of ascii_tables True (?texts ! i)"
    by auto
  have "i = 0"
  proof (rule ccontr)
    assume "i \<noteq> 0"
    with i have "i = 1 \<or> i = 2" by arith
    then show False
    proof
      assume "i = 1"
      moreover from this less have "selection_of ascii_tables True (?texts ! 0)
          < selection_of ascii_tables True (?texts ! i)"
        by simp
      ultimately have "selection_of ascii_tables True (?texts ! 0)
          < selection_of ascii_tables True (?texts ! 1)"
        by simp
      then show False by (simp add: sel_V1 sel_V2)
    next
      assume "i = 2"
      moreover from le have "selection_of ascii_tables True (?texts ! 0)
          \<le> selection_of ascii_tables True (?texts ! i)"
        by (rule allE [where x = 0]) simp
      ultimately have "selection_of ascii_tables True (?texts ! 0)
          \<le> selection_of ascii_tables True (?texts ! 2)"
        by simp
      then show False by (simp add: sel_V1 sel_ab)
    qed
  qed
  with run have best: "run_ocr_attempts_for_page ascii_tables ?settings ?ocr ?profiles
          = Inr (1, p1, analyze_ocr_pdf ascii_tables (ascii ''V-1''), made)"
    by simp
  from made have sels: "map selection_score made = [106, 106, 6]"
    by (simp add: sel_V1 sel_V2 sel_ab)
  from profs best sels show ?thesis
    by (intro exI conjI)
qed

section \<open>Properties of double rounding\<close>

lemma pow2_powi: "pow2 k = 2 powi k"
  by (simp add: pow2_def power_int_def inverse_eq_divide power_one_over)

lemma pow2_pos: "0 < pow2 k"
  by (simp add: pow2_powi zero_less_power_int)

lemma pow2_mono: "a \<le> b \<Longrightarrow> pow2 a \<le> pow2 b"
  by (simp add: pow2_powi power_int_increasing)

lemma pow2_diff: "pow2 (a - b) = pow2 a / pow2 b"
  by (simp add: pow2_powi power_int_diff)

lemma pow2_nat: "0 \<le> k \<Longrightarrow> pow2 k = of_int (2 ^ nat k)"
  by (simp add: pow2_def)

lemma binade_le:
  assumes "x \<noteq> 0"
  shows "pow2 (binade x) \<le> \<bar>x\<bar>"
proof -
  obtain p q where pq: "quotient_of \<bar>x\<bar> = (p, q)"
    by (cases "quotient_of \<bar>x\<bar>")
  then have q: "0 < q" and x: "\<bar>x\<bar> = of_int p / of_int q"
    by (auto dest: quotient_of_denom_pos quotient_of_div)
  from assms have "0 < \<bar>x\<bar>" by simp
  with x q have p: "0 < p"
    by (simp add: zero_less_divide_iff)
  let ?k = "bitlen p - bitlen q"
  show ?thesis
  proof (cases "pow2 ?k \<le> \<bar>x\<bar>")
    case True
    then show ?thesis by (simp add: binade_def pq Let_def)
  next
    case False
    then have b: "binade x = ?k - 1"
      by (simp add: binade_def pq Let_def)
    have "bitlen p \<noteq> 0"
      using p by (simp add: bitlen_eq_zero_iff)
    with bitlen_nonneg [of p] have bp: "0 \<le> bitlen p - 1"
      by linarith
    from p have "2 ^ nat (bitlen p - 1) \<le> p"
      using bitlen_bounds by blast
    then have "(of_int (2 ^ nat (bitlen p - 1)) :: rat) \<le> of_int p"
      by (simp only: of_int_le_iff)
    then have lo: "pow2 (bitlen p - 1) \<le> of_int p"
      using bp by (simp add: pow2_nat)
    from q have "q < 2 ^ nat (bitlen q)"
      using bitlen_bounds by blast
    then have "(of_int q :: rat) < of_int (2 ^ nat (bitlen q))"
      by (simp only: of_int_less_iff)
    then have hi: "of_int q \<le> pow2 (bitlen q)"
      using bitlen_nonneg [of q] by (simp add: pow2_nat)
    have "pow2 (?k - 1) = pow2 (bitlen p - 1) / pow2 (bitlen q)"
      using pow2_diff [of "bitlen p - 1" "bitlen q"] by (simp add: algebra_simps)
    also have "\<dots> \<le> of_int p / pow2 (bitlen q)"
      using lo pow2_pos [of "bitlen q"] by (simp add: divide_right_mono)
    also have "\<dots> \<le> of_int p / of_int q"
      using hi q p by (simp add: divide_left_mono)
    finally show ?thesis by (simp add: b x)
  qed
qed

lemma binade_less:
  assumes "x \<noteq> 0" and "\<bar>x\<bar> < pow2 n"
  shows "binade x < n"
proof (rule ccontr)
  assume "\<not> binade x < n"
  then have "pow2 n \<le> pow2 (binade x)"
    by (simp add: pow2_mono)
  with binade_le [OF assms(1)] assms(2) show False by simp
qed

lemma round_half_even_error: "\<bar>of_int (round_half_even q) - q\<bar> \<le> 1 / 2"
proof -
  define f where "f = \<lfloor>q\<rfloor>"
  define r where "r = q - of_int f"
  have r: "0 \<le> r" "r < 1"
    unfolding r_def f_def by linarith+
  have q: "q = of_int f + r"
    by (simp add: r_def)
  have rhe: "round_half_even q = (if r < 1 / 2 then f else if 1 / 2 < r then f + 1
      else if even f then f else f + 1)"
    unfolding round_half_even_def Let_def f_def r_def ..
  show ?thesis
  proof (cases "r < 1 / 2")
    case True
    with rhe r q show ?thesis by simp
  next
    case False
    show ?thesis
    proof (cases "1 / 2 < r")
      case True
      with False rhe have "round_half_even q = f + 1" by simp
      with True r q show ?thesis by simp
    next
      case half: False
      with False have "r = 1 / 2" by simp
      moreover from half False rhe have "round_half_even q = f \<or> round_half_even q = f + 1"
        by simp
      ultimately show ?thesis using q by auto
    qed
  qed
qed

lemma round_half_even_of_int: "round_half_even (of_int n) = n"
  by (simp add: round_half_even_def)

lemma round_double_error:
  assumes "x \<noteq> 0"
  shows "\<bar>round_double x - x\<bar> \<le> pow2 (max (binade x) (- 1022) - 52) / 2"
proof -
  let ?u = "pow2 (max (binade x) (- 1022) - 52)"
  have u: "0 < ?u" by (rule pow2_pos)
  have "round_double x - x = (of_int (round_half_even (x / ?u)) - x / ?u) * ?u"
    using assms u by (simp add: round_double_def Let_def algebra_simps)
  then have "\<bar>round_double x - x\<bar> = \<bar>of_int (round_half_even (x / ?u)) - x / ?u\<bar> * ?u"
    using u by (simp add: abs_mult)
  also have "\<dots> \<le> (1 / 2) * ?u"
    using round_half_even_error [of "x / ?u"] u by (intro mult_right_mono) simp_all
  finally show ?thesis by simp
qed

lemma round_double_of_int:
  assumes "0 < i" and "i < 2 ^ 53"
  shows "round_double (of_int i) = of_int i"
proof -
  let ?x = "of_int i :: rat"
  have nz: "?x \<noteq> 0" using assms(1) by simp
  have "?x < of_int (2 ^ 53)"
    using assms(2) by (simp only: of_int_less_iff)
  moreover have "pow2 53 = of_int (2 ^ 53)"
    by (simp add: pow2_def)
  ultimately have "\<bar>?x\<bar> < pow2 53"
    using assms(1) by simp
  with nz have "binade ?x < 53"
    by (rule binade_less)
  then have e: "0 \<le> 52 - max (binade ?x) (- 1022)"
    by simp
  define m where "m = nat (52 - max (binade ?x) (- 1022))"
  have "pow2 (- int m) = 1 / 2 ^ m"
    by (simp add: pow2_powi power_int_minus_divide)
  moreover have "max (binade ?x) (- 1022) - 52 = - int m"
    using e by (simp add: m_def)
  ultimately have u: "pow2 (max (binade ?x) (- 1022) - 52) = 1 / 2 ^ m"
    by simp
  have "?x / (1 / 2 ^ m) = of_int (i * 2 ^ m)"
    by simp
  then have r: "round_half_even (?x / (1 / 2 ^ m)) = i * 2 ^ m"
    by (simp only: round_half_even_of_int)
  have "round_double ?x = of_int (round_half_even (?x / (1 / 2 ^ m))) * (1 / 2 ^ m)"
    using nz by (simp only: round_double_def Let_def u if_False)
  also have "\<dots> = of_int (i * 2 ^ m) * (1 / 2 ^ m)"
    by (simp only: r)
  also have "\<dots> = ?x"
    by simp
  finally show ?thesis .
qed

lemma vertical_min_height_bounds:
  assumes "1 \<le> w" and "w < 2 ^ 40"
  shows "of_int (vertical_min_height w) \<le> (23 / 20 :: rat) * of_int w"
    and "(23 / 20 :: rat) * of_int w - 2 < of_int (vertical_min_height w)"
proof -
  let ?w = "of_int w :: rat"
  define x where "x = ?w * double_1_15"
  define rd where "rd = round_double x"
  have w1: "1 \<le> ?w" using assms(1) by simp
  have "?w < of_int (2 ^ 40)"
    using assms(2) by (simp only: of_int_less_iff)
  then have w2: "?w < 1099511627776" by simp
  have "w < 2 ^ 53"
    using assms(2) by simp
  with assms(1) have fw: "float_of_int w = ?w"
    by (simp add: float_of_int_def round_double_of_int)
  have c: "double_1_15 = 23 / 20 - 1 / 11258999068426240"
    by (simp add: double_1_15_def)
  have x_eq: "x = 23 / 20 * ?w - ?w / 11258999068426240"
    by (simp add: x_def c algebra_simps)
  have x_lo: "23 / 20 * ?w - 1 / 10240 < x"
    using w2 by (simp add: x_eq)
  have x_hi: "x \<le> 23 / 20 * ?w"
    using w1 by (simp add: x_eq)
  have x_pos: "1 < x"
    using x_lo w1 by simp
  then have nz: "x \<noteq> 0" by simp
  have "pow2 41 = 2199023255552"
    by (simp add: pow2_def)
  then have "\<bar>x\<bar> < pow2 41"
    using x_hi w2 x_pos by simp
  with nz have "binade x < 41"
    by (rule binade_less)
  then have "max (binade x) (- 1022) - 52 \<le> - 12"
    by simp
  then have "pow2 (max (binade x) (- 1022) - 52) \<le> pow2 (- 12)"
    by (rule pow2_mono)
  moreover have "pow2 (- 12) = 1 / 4096"
    by (simp add: pow2_def)
  ultimately have "pow2 (max (binade x) (- 1022) - 52) / 2 \<le> 1 / 8192"
    by simp
  with round_double_error [OF nz] have err: "\<bar>rd - x\<bar> \<le> 1 / 8192"
    unfolding rd_def by linarith
  then have rd_lo: "x - 1 / 8192 \<le> rd" and rd_hi: "rd \<le> x + 1 / 8192"
    by linarith+
  from rd_lo x_pos have "0 \<le> rd" by simp
  then have v: "vertical_min_height w = \<lfloor>rd\<rfloor>"
    by (simp add: vertical_min_height_def fmul_def fw int_of_float_def rd_def x_def)
  have fl: "of_int \<lfloor>rd\<rfloor> \<le> rd" "rd < of_int \<lfloor>rd\<rfloor> + 1"
    by linarith+
  have "of_int \<lfloor>rd\<rfloor> < 23 / 20 * ?w + 1 / 20"
    using fl(1) rd_hi x_hi by linarith
  then have "(of_int (20 * \<lfloor>rd\<rfloor>) :: rat) < of_int (23 * w + 1)"
    by simp
  then have "20 * \<lfloor>rd\<rfloor> < 23 * w + 1"
    by (simp only: of_int_less_iff)
  then have "20 * \<lfloor>rd\<rfloor> \<le> 23 * w"
    by simp
  then have "(of_int (20 * \<lfloor>rd\<rfloor>) :: rat) \<le> of_int (23 * w)"
    by (simp only: of_int_le_iff)
  then show "of_int (vertical_min_height w) \<le> (23 / 20 :: rat) * of_int w"
    by (simp add: v)
  show "(23 / 20 :: rat) * of_int w - 2 < of_int (vertical_min_height w)"
    unfolding v using fl(2) rd_lo x_lo by linarith
qed

section \<open>Properties of the vertical-text scan\<close>

lemma map_detected_boxes_vertical:
  "map_detected_boxes W H angle True rotated_boxes
     = filter tall_enough (List.map_filter (map_box W H angle) rotated_boxes)"
proof (induction rotated_boxes)
  case Nil
  then show ?case by (simp add: List.map_filter_simps)
next
  case (Cons box rest)
  obtain l t w h x c where box: "box = (l, t, w, h, x, c)"
    by (cases box)
  show ?case
  proof (cases "map_rotated_box_to_original l t w h x c W H angle")
    case None
    then show ?thesis
      using Cons.IH by (simp add: box map_box_def List.map_filter_simps)
  next
    case (Some mapped)
    obtain ml mt mw mh mx mc where mapped: "mapped = (ml, mt, mw, mh, mx, mc)"
      by (cases mapped)
    show ?thesis
      using Cons.IH Some
      by (simp add: box mapped map_box_def List.map_filter_simps tall_enough_def
          vertical_min_height_def)
  qed
qed

lemma v10: "vertical_min_height 10 = 11"
  by code_simp

text \<open>
  The threshold of the scan is not \<open>1.15 * mapped_width\<close>: a box detected 11 wide and 10
  high on the rotation of a 100 x 100 image maps to a box 10 wide and 11 high, which the
  vertical-only scan keeps although 11 is below \<open>1.15 * 10 = 11.5\<close>.
\<close>

theorem vertical_scan_threshold_counterexample:
  "extract_word_boxes_rotated (Inr [(0, 0, 11, 10, ascii ''I'', 90)]) 100 100 90 True
     = Inr [(90, 0, 10, 11, ascii ''I'', 90)]
   \<and> (11 :: rat) < 115 / 100 * 10"
proof -
  have m: "map_rotated_box_to_original 0 0 11 10 (ascii ''I'') 90 100 100 90
      = Some (90, 0, 10, 11, ascii ''I'', 90)"
    by (simp add: map_rotated_box_to_original_def Let_def)
  have "map_detected_boxes 100 100 90 True [(0, 0, 11, 10, ascii ''I'', 90)]
      = [(90, 0, 10, 11, ascii ''I'', 90)]"
    by (simp add: m v10)
  then show ?thesis
    by (simp add: extract_word_boxes_rotated_def bind_err_def)
qed

text \<open>
  Claim C7 (amended). With \<open>keep_vertical_only\<close> the scan returns, in the order of
  detection, exactly the mapped boxes whose mapped height is at least
  \<open>int(mapped_width * 1.15)\<close>, the double-precision product truncated to an integer. For
  widths from 1 to below \<open>2^40\<close> that threshold is at most \<open>1.15 * mapped_width\<close> and above
  \<open>1.15 * mapped_width - 2\<close>: a mapped box with height at least 1.15 times its width
  passes the test, and one with height at most \<open>1.15 * mapped_width - 2\<close> fails it.
\<close>

theorem vertical_scan_keeps_by_truncated_product:
  assumes "angle = 90 \<or> angle = 270"
  shows "extract_word_boxes_rotated (Inr rotated_boxes) original_width original_height angle True
           = Inr (filter tall_enough
                    (List.map_filter (map_box original_width original_height angle) rotated_boxes))
       \<and> (\<forall>l t w h x c. 1 \<le> w \<and> w < 2 ^ 40 \<longrightarrow>
             ((23 / 20 :: rat) * of_int w \<le> of_int h \<longrightarrow> tall_enough (l, t, w, h, x, c))
           \<and> ((of_int h :: rat) \<le> 23 / 20 * of_int w - 2 \<longrightarrow> \<not> tall_enough (l, t, w, h, x, c)))"
proof (intro conjI allI impI)
  show "extract_word_boxes_rotated (Inr rotated_boxes) original_width original_height angle True
           = Inr (filter tall_enough
                    (List.map_filter (map_box original_width original_height angle) rotated_boxes))"
    using assms
    by (auto simp: extract_word_boxes_rotated_def bind_err_def map_detected_boxes_vertical)
next
  fix l t w h :: int and x :: ustr and c :: pyfloat
  assume w: "1 \<le> w \<and> w < 2 ^ 40" and h: "(23 / 20 :: rat) * of_int w \<le> of_int h"
  from w have "of_int (vertical_min_height w) \<le> (23 / 20 :: rat) * of_int w"
    by (intro vertical_min_height_bounds) simp_all
  with h have "(of_int (vertical_min_height w) :: rat) \<le> of_int h"
    by simp
  then have "vertical_min_height w \<le> h"
    by (simp only: of_int_le_iff)
  then show "tall_enough (l, t, w, h, x, c)"
    by (simp add: tall_enough_def vertical_min_height_def)
next
  fix l t w h :: int and x :: ustr and c :: pyfloat
  assume w: "1 \<le> w \<and> w < 2 ^ 40" and h: "(of_int h :: rat) \<le> 23 / 20 * of_int w - 2"
  from w have "(23 / 20 :: rat) * of_int w - 2 < of_int (vertical_min_height w)"
    by (intro vertical_min_height_bounds) simp_all
  with h have "(of_int h :: rat) < of_int (vertical_min_height w)"
    by simp
  then have "h < vertical_min_height w"
    by (simp only: of_int_less_iff)
  then show "\<not> tall_enough (l, t, w, h, x, c)"
    by (simp add: tall_enough_def vertical_min_height_def)
qed

theorem vertical_scan_keeps_by_truncated_product_witness:
  "extract_word_boxes_rotated
     (Inr [(0, 0, 11, 10, ascii ''I'', 90), (20, 0, 10, 10, ascii ''o'', 90),
           (40, 0, 12, 10, ascii ''l'', 90)])
     100 100 90 True
   = Inr [(90, 0, 10, 11, ascii ''I'', 90), (90, 40, 10, 12, ascii ''l'', 90)]"
proof -
  let ?rotated = "[(0, 0, 11, 10, ascii ''I'', 90), (20, 0, 10, 10, ascii ''o'', 90),
           (40, 0, 12, 10, ascii ''l'', 90)] :: WordBox list"
  have m1: "map_box 100 100 90 (0, 0, 11, 10, ascii ''I'', 90)
      = Some (90, 0, 10, 11, ascii ''I'', 90)"
    by (simp add: map_box_def map_rotated_box_to_original_def Let_def)
  have m2: "map_box 100 100 90 (20, 0, 10, 10, ascii ''o'', 90)
      = Some (90, 20, 10, 10, ascii ''o'', 90)"
    by (simp add: map_box_def map_rotated_box_to_original_def Let_def)
  have m3: "map_box 100 100 90 (40, 0, 12, 10, ascii ''l'', 90)
      = Some (90, 40, 10, 12, ascii ''l'', 90)"
    by (simp add: map_box_def map_rotated_box_to_original_def Let_def)
  have mapped: "List.map_filter (map_box 100 100 90) ?rotated
      = [(90, 0, 10, 11, ascii ''I'', 90), (90, 20, 10, 10, ascii ''o'', 90),
         (90, 40, 10, 12, ascii ''l'', 90)]"
    by (simp add: List.map_filter_simps m1 m2 m3)
  have tall: "tall_enough (90, 0, 10, 11, ascii ''I'', 90)"
      "\<not> tall_enough (90, 20, 10, 10, ascii ''o'', 90)"
      "tall_enough (90, 40, 10, 12, ascii ''l'', 90)"
    using v10 by (simp_all add: tall_enough_def vertical_min_height_def)
  have "(90::int) = 90 \<or> (90::int) = 270" by simp
  from vertical_scan_keeps_by_truncated_product [OF this, of ?rotated 100 100]
  have "extract_word_boxes_rotated (Inr ?rotated) 100 100 90 True
           = Inr (filter tall_enough (List.map_filter (map_box 100 100 90) ?rotated))"
    by (rule conjunct1)
  then show ?thesis
    by (simp only: mapped filter.simps tall if_True if_False)
qed

end
